theory Spec2Isabelle
  imports Complex_Main
begin

section \<open>Idealised glacier notebooks: geometry, schedules and forcing drivers\<close>

text \<open>
  The notebooks build one-dimensional glacier geometry with numpy, construct the list of
  years at which the flowline model reports, and drive the flowline model through these
  years.  Years, equilibrium line altitudes and grid counts are integers in every cell
  that is modelled here; elevations and widths are exact rationals standing for the
  notebook's floating-point arrays.
\<close>

subsection \<open>numpy primitives used by the notebook cells\<close>

datatype py_error = ValueError | IndexError

text \<open>
  \<^verbatim>\<open>np.arange(start, stop, step)\<close> on integers: the values
  \<open>start + k * step\<close> for \<open>k = 0, ..., ceil((stop - start) / step) - 1\<close>.
  Every call in the notebooks passes the literal step 1, 5 or 10.
\<close>

definition arange :: "int \<Rightarrow> int \<Rightarrow> int \<Rightarrow> int list" where
  "arange start stop step =
     map (\<lambda>k. start + int k * step) [0..<nat (- ((start - stop) div step))]"

text \<open>
  \<^verbatim>\<open>np.linspace(start, stop, num)\<close> with the default \<open>endpoint=True\<close>: a
  negative \<open>num\<close> raises, \<open>div = num - 1\<close>, the samples are
  \<open>arange(0, num) * step + start\<close> with \<open>step = delta / div\<close> (or
  \<open>arange(0, num) * delta + start\<close> when \<open>div\<close> is not positive), and the last
  sample is overwritten with \<open>stop\<close> when \<open>num > 1\<close>.
\<close>

definition linspace :: "rat \<Rightarrow> rat \<Rightarrow> int \<Rightarrow> py_error + rat list" where
  "linspace start stop num =
     (if num < 0 then Inl ValueError
      else
        let n = nat num;
            dv = num - 1;
            delta = stop - start;
            y = (if 0 < dv then
                   (let step = delta / of_int dv
                    in if step = 0 then map (\<lambda>k. of_nat k / of_int dv * delta) [0..<n]
                       else map (\<lambda>k. of_nat k * step) [0..<n])
                 else map (\<lambda>k. of_nat k * delta) [0..<n]);
            y1 = map (\<lambda>v. v + start) y
        in Inr (if 1 < num then y1[n - 1 := stop] else y1))"

text \<open>Indexing a sequence with a Python integer: negative indices count from the end.\<close>

definition py_index :: "'a list \<Rightarrow> int \<Rightarrow> py_error + 'a" where
  "py_index xs i =
     (if 0 \<le> i \<and> i < int (length xs) then Inr (xs ! nat i)
      else if i < 0 \<and> - int (length xs) \<le> i then Inr (xs ! nat (int (length xs) + i))
      else Inl IndexError)"

text \<open>
  The slice assignment \<^verbatim>\<open>a[0:k] = v\<close> with a scalar \<open>v\<close> and \<open>k \<ge> 0\<close>: the
  first \<open>k\<close> entries (or all of them, when the array is shorter) become \<open>v\<close>.
\<close>

definition slice_fill :: "'a list \<Rightarrow> nat \<Rightarrow> 'a \<Rightarrow> 'a list" where
  "slice_fill a k v = replicate (min k (length a)) v @ drop k a"

subsection \<open>Bedrock and widths\<close>

text \<open>
  \<^verbatim>\<open>bed_h = np.linspace(3400, 1400, nx)\<close>, with the two altitudes and the grid
  count as parameters.
\<close>

definition bed_h :: "rat \<Rightarrow> rat \<Rightarrow> int \<Rightarrow> py_error + rat list" where
  "bed_h top_alt bottom_alt nx = linspace top_alt bottom_alt nx"

text \<open>\<^verbatim>\<open>widths = np.zeros(nx) + initial_width/map_dx\<close>\<close>

definition widths :: "nat \<Rightarrow> rat \<Rightarrow> rat \<Rightarrow> rat list" where
  "widths nx initial_width map_dx = map (\<lambda>z. z + initial_width / map_dx) (replicate nx 0)"

text \<open>
  \<^verbatim>\<open>wider_widths = np.copy(widths); wider_widths[0:15] = new_width/map_dx\<close>
\<close>

definition wider_widths :: "nat \<Rightarrow> rat \<Rightarrow> rat \<Rightarrow> rat \<Rightarrow> rat list" where
  "wider_widths nx initial_width new_width map_dx =
     slice_fill (widths nx initial_width map_dx) 15 (new_width / map_dx)"

datatype config_error = InvalidConfiguration

text \<open>
  Modelled from the spec: \<^verbatim>\<open>edu.define_widths_with_trapezoidal_shape_at_top\<close> is
  called by the advance-and-retreat notebook but its body is not part of the notebooks.
  The specification's \<open>build_trapezoidal_width\<close> returns \<open>top_width\<close> on the first
  \<open>floor(accumulation_fraction * grid_count)\<close> indices and \<open>ela_width\<close> on all others,
  and rejects a non-positive grid count and a fraction outside \<open>[0, 1]\<close>.
\<close>

definition build_trapezoidal_width ::
    "rat \<Rightarrow> rat \<Rightarrow> int \<Rightarrow> rat \<Rightarrow> config_error + rat list" where
  "build_trapezoidal_width top_width ela_width grid_count accumulation_fraction =
     (if grid_count \<le> 0 \<or> accumulation_fraction < 0 \<or> 1 < accumulation_fraction
      then Inl InvalidConfiguration
      else
        let k = nat \<lfloor>accumulation_fraction * of_int grid_count\<rfloor>
        in Inr (replicate k top_width @ replicate (nat grid_count - k) ela_width))"

subsection \<open>The surging schedule\<close>

text \<open>
  One pass of the body of \<^verbatim>\<open>for i in np.arange(0, no_surges, 1)\<close>: the years
  of surge \<open>i\<close>, sampled every year, then the following quiet years, sampled every ten.
\<close>

definition surge_cycle :: "int \<Rightarrow> int \<Rightarrow> int list \<Rightarrow> int \<Rightarrow> int list" where
  "surge_cycle t_slow period_s yrs i =
     (let yrs_sliding = arange (t_slow + 1 + t_slow * i + period_s * i)
                               (t_slow + period_s + 1 + t_slow * i + period_s * i) 1;
          yrs1 = yrs @ yrs_sliding;
          yrs_normal = arange (t_slow + period_s + 10 + t_slow * i + period_s * i)
                              (2 * t_slow + period_s + 10 + t_slow * i + period_s * i) 10
      in yrs1 @ yrs_normal)"

text \<open>
  \<^verbatim>\<open>yrs = np.arange(0, t_slow + 1, 10)\<close> followed by the loop over the surges.
  The cell computes with Python integers and, for the loop index, with numpy's 64-bit
  integers; both are unbounded integers here, so the definition is the cell as long as
  every year it computes fits in 64 bits.
\<close>

definition surge_yrs :: "int \<Rightarrow> int \<Rightarrow> int \<Rightarrow> int list" where
  "surge_yrs t_slow period_s no_surges =
     foldl (surge_cycle t_slow period_s) (arange 0 (t_slow + 1) 10) (arange 0 no_surges 1)"

text \<open>
  The same construction with every year paired with its origin: \<open>True\<close> for a year
  appended from \<open>yrs_sliding\<close>, \<open>False\<close> for a year of the initial run or of
  \<open>yrs_normal\<close>.  The flag is bookkeeping only; the years are those of \<open>surge_yrs\<close>.
\<close>

definition tagged_cycle ::
    "int \<Rightarrow> int \<Rightarrow> (int \<times> bool) list \<Rightarrow> int \<Rightarrow> (int \<times> bool) list" where
  "tagged_cycle t_slow period_s yrs i =
     (let yrs_sliding = arange (t_slow + 1 + t_slow * i + period_s * i)
                               (t_slow + period_s + 1 + t_slow * i + period_s * i) 1;
          yrs1 = yrs @ map (\<lambda>y. (y, True)) yrs_sliding;
          yrs_normal = arange (t_slow + period_s + 10 + t_slow * i + period_s * i)
                              (2 * t_slow + period_s + 10 + t_slow * i + period_s * i) 10
      in yrs1 @ map (\<lambda>y. (y, False)) yrs_normal)"

definition surge_schedule :: "int \<Rightarrow> int \<Rightarrow> int \<Rightarrow> (int \<times> bool) list" where
  "surge_schedule t_slow period_s no_surges =
     foldl (tagged_cycle t_slow period_s)
           (map (\<lambda>y. (y, False)) (arange 0 (t_slow + 1) 10))
           (arange 0 no_surges 1)"

text \<open>
  The lengths of the maximal contiguous runs of \<open>True\<close> flags, in order; \<open>c\<close> is the
  length of the run that is open on entry.
\<close>

fun runs_from :: "nat \<Rightarrow> bool list \<Rightarrow> nat list" where
  "runs_from c [] = (if c = 0 then [] else [c])"
| "runs_from c (True # bs) = runs_from (Suc c) bs"
| "runs_from c (False # bs) = (if c = 0 then [] else [c]) @ runs_from 0 bs"

definition perturbation_runs :: "(int \<times> bool) list \<Rightarrow> nat list" where
  "perturbation_runs s = runs_from 0 (map snd s)"

subsection \<open>Marking the surging periods in the plots\<close>

text \<open>
  The condition of the plotting loop,
  \<^verbatim>\<open>(yr-yrs[i-1]) == 1 and (yrs[i-1+period_s]-yrs[i+period_s-2]) == 1\<close>.
  The right operand of \<open>and\<close> is evaluated only when the left one holds, and every
  subscript may raise.
\<close>

definition surge_window_test :: "int list \<Rightarrow> int \<Rightarrow> int \<Rightarrow> int \<Rightarrow> py_error + bool" where
  "surge_window_test yrs period_s i yr =
     (case py_index yrs (i - 1) of
        Inl e \<Rightarrow> Inl e
      | Inr prev \<Rightarrow>
          if yr - prev = 1 then
            (case py_index yrs (i - 1 + period_s) of
               Inl e \<Rightarrow> Inl e
             | Inr a \<Rightarrow>
                 (case py_index yrs (i + period_s - 2) of
                    Inl e \<Rightarrow> Inl e
                  | Inr b \<Rightarrow> Inr (a - b = 1)))
          else Inr False)"

text \<open>
  \<^verbatim>\<open>for i, yr in enumerate(yrs): if ...: axs[0].axvspan(yrs[i-1], yrs[i-1+period_s], ...)\<close>
  The result lists, for every index at which the condition holds, the index and the two
  ends of the shaded span.
\<close>

fun mark_surges ::
    "int list \<Rightarrow> int \<Rightarrow> (nat \<times> int) list \<Rightarrow> py_error + (nat \<times> int \<times> int) list" where
  "mark_surges yrs period_s [] = Inr []"
| "mark_surges yrs period_s ((i, yr) # rest) =
     (case surge_window_test yrs period_s (int i) yr of
        Inl e \<Rightarrow> Inl e
      | Inr False \<Rightarrow> mark_surges yrs period_s rest
      | Inr True \<Rightarrow>
          (case py_index yrs (int i - 1) of
             Inl e \<Rightarrow> Inl e
           | Inr x0 \<Rightarrow>
               (case py_index yrs (int i - 1 + period_s) of
                  Inl e \<Rightarrow> Inl e
                | Inr x1 \<Rightarrow>
                    (case mark_surges yrs period_s rest of
                       Inl e \<Rightarrow> Inl e
                     | Inr spans \<Rightarrow> Inr ((i, x0, x1) # spans)))))"

definition surge_marks :: "int list \<Rightarrow> int \<Rightarrow> py_error + (nat \<times> int \<times> int) list" where
  "surge_marks yrs period_s = mark_surges yrs period_s (enumerate 0 yrs)"

text \<open>The left operand of the condition alone, at index \<open>i\<close>.\<close>

definition dense_step :: "int list \<Rightarrow> nat \<Rightarrow> py_error + bool" where
  "dense_step yrs i =
     (case py_index yrs (int i - 1) of
        Inl e \<Rightarrow> Inl e
      | Inr prev \<Rightarrow> Inr (yrs ! i - prev = 1))"

subsection \<open>The flowline model and the reporting loops\<close>

text \<open>
  What the notebooks read from a flowline: its length, area and volume.  The model object
  holds the current year, the equilibrium line altitude of its linear mass-balance model
  (the gradient is 4 throughout) and the flowline.
\<close>

record flowline =
  length_m :: rat
  area_km2 :: rat
  volume_km3 :: rat

record flowline_model =
  yr :: int
  mb_model :: int
  fls :: flowline

text \<open>
  The ice dynamics between two years under a given equilibrium line altitude; it is
  left open, every statement below holds for all of them.
\<close>

type_synonym physics = "int \<Rightarrow> int \<Rightarrow> int \<Rightarrow> flowline \<Rightarrow> flowline"

text \<open>
  Modelled from the spec: \<^verbatim>\<open>FlowlineModel(init_flowline, mb_model=..., y0=0.)\<close> and
  \<^verbatim>\<open>model.run_until(y1)\<close> belong to the flow-model library, which is not part of
  the notebooks.  The specification's \<open>advance_to(year)\<close> advances the state to
  \<open>year\<close> and moves the year counter there, and is a no-op when \<open>year\<close> is not later
  than the current year; the notebook text says the same ("the model will not calculate
  back in time").
\<close>

definition FlowlineModel :: "flowline \<Rightarrow> int \<Rightarrow> int \<Rightarrow> flowline_model" where
  "FlowlineModel init_flowline ela y0 = \<lparr>yr = y0, mb_model = ela, fls = init_flowline\<rparr>"

definition run_until :: "physics \<Rightarrow> flowline_model \<Rightarrow> int \<Rightarrow> flowline_model" where
  "run_until physics model y1 =
     (if y1 \<le> yr model then model
      else model\<lparr>yr := y1, fls := physics (mb_model model) (yr model) y1 (fls model)\<rparr>)"

text \<open>
  The reporting loop of the flowline notebook:
  \<^verbatim>\<open>
  nsteps = len(yrs); length = np.zeros(nsteps); vol = np.zeros(nsteps)
  for i, yr in enumerate(yrs):
      model.run_until(yr)
      length[i] = model.length_m
      vol[i] = model.volume_km3
  \<close>
  \<open>year_r\<close> records, beside the two arrays of the notebook, the model year at which
  each entry was read.
\<close>

record report =
  year_r :: "int list"
  length_r :: "rat list"
  vol_r :: "rat list"

fun report_loop ::
    "physics \<Rightarrow> (nat \<times> int) list \<Rightarrow> flowline_model \<times> report \<Rightarrow> flowline_model \<times> report" where
  "report_loop physics [] s = s"
| "report_loop physics ((i, y) # rest) (model, r) =
     (let model1 = run_until physics model y
      in report_loop physics rest
           (model1,
            r\<lparr>year_r := (year_r r)[i := yr model1],
              length_r := (length_r r)[i := length_m (fls model1)],
              vol_r := (vol_r r)[i := volume_km3 (fls model1)]\<rparr>))"

definition report_run ::
    "physics \<Rightarrow> flowline_model \<Rightarrow> int list \<Rightarrow> flowline_model \<times> report" where
  "report_run physics model yrs =
     (let nsteps = length yrs
      in report_loop physics (enumerate 0 yrs)
           (model, \<lparr>year_r = replicate nsteps 0,
                    length_r = replicate nsteps 0,
                    vol_r = replicate nsteps 0\<rparr>))"

text \<open>
  The loop with three stages of the equilibrium line altitude:
  \<^verbatim>\<open>
  current_ela = 3000.
  for i, yr in enumerate(yrs):
      model.run_until(yr)
      if yr >= 100:
          current_ela = 2800
          model.mb_model = LinearMassBalance(current_ela, grad=4)
      if yr >= 500:
          current_ela = 3200
          model.mb_model = LinearMassBalance(current_ela, grad=4)
      ela[i] = current_ela
      length[i] = model.length_m
      area[i] = model.area_km2
      volume[i] = model.volume_km3
  \<close>
  \<open>under_r\<close> records the altitude of the mass-balance model that the model object
  held when \<open>run_until\<close> was called for the entry.
\<close>

record ela_report =
  ela_r :: "int list"
  under_r :: "int list"
  len_r :: "rat list"
  area_r :: "rat list"
  volume_r :: "rat list"

fun ela_loop ::
    "physics \<Rightarrow> (nat \<times> int) list \<Rightarrow> int \<times> flowline_model \<times> ela_report
       \<Rightarrow> int \<times> flowline_model \<times> ela_report" where
  "ela_loop physics [] s = s"
| "ela_loop physics ((i, y) # rest) (current_ela, model, r) =
     (let under = mb_model model;
          model1 = run_until physics model y;
          (current_ela1, model2) =
             (if 100 \<le> y then (2800, model1\<lparr>mb_model := 2800\<rparr>) else (current_ela, model1));
          (current_ela2, model3) =
             (if 500 \<le> y then (3200, model2\<lparr>mb_model := 3200\<rparr>) else (current_ela1, model2))
      in ela_loop physics rest
           (current_ela2, model3,
            r\<lparr>ela_r := (ela_r r)[i := current_ela2],
              under_r := (under_r r)[i := under],
              len_r := (len_r r)[i := length_m (fls model3)],
              area_r := (area_r r)[i := area_km2 (fls model3)],
              volume_r := (volume_r r)[i := volume_km3 (fls model3)]\<rparr>))"

text \<open>
  \<^verbatim>\<open>model = FlowlineModel(spinup_model.fls, mb_model=LinearMassBalance(3000, grad=4), y0=0.)\<close>
  and the loop above over \<open>yrs\<close>.
\<close>

definition ela_run ::
    "physics \<Rightarrow> flowline \<Rightarrow> int list \<Rightarrow> int \<times> flowline_model \<times> ela_report" where
  "ela_run physics spinup yrs =
     (let nsteps = length yrs
      in ela_loop physics (enumerate 0 yrs)
           (3000, FlowlineModel spinup 3000 0,
            \<lparr>ela_r = replicate nsteps 0, under_r = replicate nsteps 0,
             len_r = replicate nsteps 0, area_r = replicate nsteps 0,
             volume_r = replicate nsteps 0\<rparr>))"

text \<open>
  The flowline read at index \<open>i\<close>, put together from the three arrays the loop fills.
\<close>

definition recorded_flowline :: "ela_report \<Rightarrow> nat \<Rightarrow> flowline" where
  "recorded_flowline r i =
     \<lparr>length_m = len_r r ! i, area_km2 = area_r r ! i, volume_km3 = volume_r r ! i\<rparr>"

text \<open>The three stages as a function of the year alone.\<close>

definition staged_ela :: "int \<Rightarrow> int" where
  "staged_ela y = (if 100 \<le> y \<and> y < 500 then 2800 else if 500 \<le> y then 3200 else 3000)"

text \<open>\<^verbatim>\<open>yrs = np.arange(0, 901, 5, dtype=np.float32)\<close>; every entry is a whole number.\<close>

definition stage_yrs :: "int list" where
  "stage_yrs = arange 0 901 5"

subsection \<open>The surface without ice flow\<close>

text \<open>
  Modelled from the spec: \<^verbatim>\<open>edu.linear_accumulation\<close>,
  \<^verbatim>\<open>edu.linear_ablation\<close> and \<^verbatim>\<open>edu.correct_to_bed\<close> are called by the
  advance-and-retreat notebook (\<^verbatim>\<open>mb_sfc = edu.correct_to_bed(bed_h, initial + mb_we)\<close>)
  but their bodies are not part of the notebooks.  The specification's \<open>reconstruct\<close>
  adds the balance \<open>gradient * (initial_surface[i] - ela)\<close> to the surface and resets
  every value whose implied ice thickness is negative to the bedrock elevation.
\<close>

definition correct_to_bed :: "rat list \<Rightarrow> rat list \<Rightarrow> rat list" where
  "correct_to_bed bed sfc = map (\<lambda>(b, s). if s - b < 0 then b else s) (zip bed sfc)"

definition reconstruct :: "rat list \<Rightarrow> rat list \<Rightarrow> rat \<Rightarrow> rat \<Rightarrow> rat list" where
  "reconstruct initial_surface bedrock ela gradient =
     correct_to_bed bedrock (map (\<lambda>z. z + gradient * (z - ela)) initial_surface)"

section \<open>Properties\<close>

subsection \<open>Helper facts about the numpy primitives\<close>

lemma length_arange: "length (arange a b s) = nat (- ((a - b) div s))"
  by (simp add: arange_def)

lemma arange_unit: "arange 0 (int n) 1 = map int [0..<n]"
  by (simp add: arange_def)

lemma arange_none: "arange 0 0 1 = []"
  by (simp add: arange_def)

lemma arange_elem_lt:
  assumes "0 < s" "y \<in> set (arange a b s)"
  shows "a \<le> y \<and> y < b"
proof -
  from assms(2) obtain k where k: "k < nat (- ((a - b) div s))" and y: "y = a + int k * s"
    by (auto simp: arange_def)
  define q where "q = (a - b) div s"
  define r where "r = (a - b) mod s"
  from k have "q \<le> - int k - 1" unfolding q_def by linarith
  with assms(1) have "s * q \<le> s * (- int k - 1)"
    by (simp add: mult_left_mono)
  moreover have "s * (- int k - 1) = - (int k * s) - s" by (simp add: algebra_simps)
  moreover have "r < s" unfolding r_def using assms(1) by simp
  moreover have "a - b = s * q + r" unfolding q_def r_def by simp
  moreover have "0 \<le> int k * s" using assms(1) by simp
  ultimately show ?thesis using y by linarith
qed

lemma arange_strict: "0 < s \<Longrightarrow> sorted_wrt (<) (arange a b s)"
  unfolding arange_def
  by (simp add: sorted_wrt_map sorted_wrt_upt)

lemma arange_sorted: "0 < s \<Longrightarrow> sorted (arange a b s)"
  using arange_strict [of s a b] by (simp add: strict_sorted_iff)

subsection \<open>The surging schedule, one cycle after the other\<close>

lemma surge_yrs_Suc:
  "surge_yrs t p (int (Suc n)) = surge_cycle t p (surge_yrs t p (int n)) (int n)"
  by (simp add: surge_yrs_def arange_unit del: of_nat_Suc)

lemma surge_schedule_Suc:
  "surge_schedule t p (int (Suc n)) = tagged_cycle t p (surge_schedule t p (int n)) (int n)"
  by (simp add: surge_schedule_def arange_unit del: of_nat_Suc)

lemma schedule_years: "map fst (surge_schedule t p (int n)) = surge_yrs t p (int n)"
proof (induction n)
  case 0
  show ?case by (simp add: surge_schedule_def surge_yrs_def arange_none comp_def)
next
  case (Suc n)
  then show ?case
    by (simp only: surge_schedule_Suc surge_yrs_Suc)
       (simp add: tagged_cycle_def surge_cycle_def Let_def comp_def)
qed

lemma runs_from_True: "runs_from c (replicate k True @ bs) = runs_from (c + k) bs"
  by (induction k arbitrary: c) simp_all

lemma runs_from_False:
  "runs_from c (replicate (Suc k) False @ bs) = (if c = 0 then [] else [c]) @ runs_from 0 bs"
  by (induction k arbitrary: c) simp_all

lemma schedule_tags:
  "map snd (surge_schedule 100 10 (int n)) =
     replicate 11 False @ concat (replicate n (replicate 10 True @ replicate 10 False))"
proof (induction n)
  case 0
  show ?case
    by (simp add: surge_schedule_def arange_none length_arange comp_def map_replicate_const)
next
  case (Suc n)
  have "concat (replicate (Suc n) (replicate 10 True @ replicate 10 False)) =
        concat (replicate n (replicate 10 True @ replicate 10 False)) @
        (replicate 10 True @ replicate 10 False)"
    by (metis concat.simps concat_append replicate_Suc replicate_append_same append_Nil2)
  with Suc show ?case
    by (simp only: surge_schedule_Suc)
       (simp add: tagged_cycle_def Let_def comp_def map_replicate_const length_arange)
qed

lemma runs_cycles:
  "runs_from 0 (concat (replicate n (replicate 10 True @ replicate 10 False)) @ bs) =
     replicate n 10 @ runs_from 0 bs"
proof (induction n)
  case 0
  show ?case by simp
next
  case (Suc n)
  have "runs_from 0 (replicate 10 True @ replicate (Suc 9) False @
          concat (replicate n (replicate 10 True @ replicate 10 False)) @ bs) =
        [10] @ runs_from 0 (concat (replicate n (replicate 10 True @ replicate 10 False)) @ bs)"
    by (simp only: runs_from_True runs_from_False) simp
  with Suc show ?case by simp
qed

lemma runs_of_schedule: "perturbation_runs (surge_schedule 100 10 (int n)) = replicate n 10"
proof -
  have "runs_from 0 (replicate (Suc 10) False @
          concat (replicate n (replicate 10 True @ replicate 10 False)) @ []) =
        replicate n 10"
    by (simp only: runs_from_False runs_cycles) simp
  then show ?thesis
    by (simp add: perturbation_runs_def schedule_tags)
qed

lemma yrs_bound:
  "y \<in> set (surge_yrs 100 10 (int n)) \<Longrightarrow> 0 \<le> y \<and> y \<le> 100 + 110 * int n"
proof (induction n arbitrary: y)
  case 0
  then show ?case
    using arange_elem_lt [of 10 y 0 101]
    by (simp add: surge_yrs_def arange_none)
next
  case (Suc n)
  from Suc.prems
  consider "y \<in> set (surge_yrs 100 10 (int n))"
    | "y \<in> set (arange (101 + 110 * int n) (111 + 110 * int n) 1)"
    | "y \<in> set (arange (120 + 110 * int n) (220 + 110 * int n) 10)"
    by (simp only: surge_yrs_Suc) (auto simp: surge_cycle_def Let_def algebra_simps)
  then show ?case
  proof cases
    case 1
    with Suc.IH [of y] show ?thesis by simp
  next
    case 2
    with arange_elem_lt [of 1 y] show ?thesis by fastforce
  next
    case 3
    then obtain k where "k < 10" "y = 120 + 110 * int n + int k * 10"
      by (auto simp: arange_def)
    then show ?thesis by simp
  qed
qed

lemma yrs_strict: "sorted_wrt (<) (surge_yrs 100 10 (int n))"
proof (induction n)
  case 0
  show ?case by (simp add: surge_yrs_def arange_none arange_strict)
next
  case (Suc n)
  let ?a = "arange (101 + 110 * int n) (111 + 110 * int n) 1"
  let ?b = "arange (120 + 110 * int n) (220 + 110 * int n) 10"
  have eq: "surge_yrs 100 10 (int (Suc n)) = surge_yrs 100 10 (int n) @ ?a @ ?b"
    by (simp only: surge_yrs_Suc) (simp add: surge_cycle_def Let_def algebra_simps)
  have a: "\<And>y. y \<in> set ?a \<Longrightarrow> 100 + 110 * int n < y \<and> y < 111 + 110 * int n"
    using arange_elem_lt [of 1] by fastforce
  have b: "\<And>y. y \<in> set ?b \<Longrightarrow> 120 + 110 * int n \<le> y"
    using arange_elem_lt [of 10] by fastforce
  have "sorted_wrt (<) (?a @ ?b)"
    using a b by (fastforce simp: sorted_wrt_append arange_strict)
  moreover have "\<forall>x\<in>set (surge_yrs 100 10 (int n)). \<forall>y\<in>set (?a @ ?b). x < y"
    using a b yrs_bound [of _ n] by fastforce
  ultimately show ?case
    using Suc by (simp only: eq sorted_wrt_append) simp
qed

subsection \<open>The reporting loop follows its schedule\<close>

lemma yr_run_until: "yr model \<le> y \<Longrightarrow> yr (run_until ph model y) = y"
  by (simp add: run_until_def)

lemma report_loop_years:
  assumes "sorted ys" "\<forall>y\<in>set ys. yr model \<le> y" "k + length ys \<le> length (year_r r)"
  shows "year_r (snd (report_loop ph (enumerate k ys) (model, r))) =
           take k (year_r r) @ ys @ drop (k + length ys) (year_r r)"
  using assms
proof (induction ys arbitrary: k model r)
  case Nil
  then show ?case by simp
next
  case (Cons y ys)
  let ?m = "run_until ph model y"
  let ?r = "r\<lparr>year_r := (year_r r)[k := yr ?m],
              length_r := (length_r r)[k := length_m (fls ?m)],
              vol_r := (vol_r r)[k := volume_km3 (fls ?m)]\<rparr>"
  have y: "yr ?m = y" using Cons.prems by (simp add: yr_run_until)
  have "year_r (snd (report_loop ph (enumerate (Suc k) ys) (?m, ?r))) =
          take (Suc k) (year_r ?r) @ ys @ drop (Suc k + length ys) (year_r ?r)"
    using Cons.prems y by (intro Cons.IH) auto
  moreover have "take (Suc k) (year_r ?r) = take k (year_r r) @ [y]"
    using Cons.prems y by (simp add: take_Suc_conv_app_nth)
  ultimately show ?case by (simp add: Let_def)
qed

lemma report_run_years:
  assumes "sorted yrs" "\<forall>y\<in>set yrs. yr model \<le> y"
  shows "year_r (snd (report_run ph model yrs)) = yrs"
  using report_loop_years [OF assms, of 0 _ ph] by (simp add: report_run_def Let_def)

lemma report_loop_lengths:
  "length (year_r (snd (report_loop ph es (model, r)))) = length (year_r r) \<and>
   length (length_r (snd (report_loop ph es (model, r)))) = length (length_r r) \<and>
   length (vol_r (snd (report_loop ph es (model, r)))) = length (vol_r r)"
  by (induction es arbitrary: model r) (auto simp: Let_def)

lemma report_run_lengths:
  "length (length_r (snd (report_run ph model yrs))) = length yrs \<and>
   length (vol_r (snd (report_run ph model yrs))) = length yrs"
  using report_loop_lengths [of ph "enumerate 0 yrs" model]
  by (simp add: report_run_def Let_def)

lemma report_loop_contents:
  assumes "k + length ys \<le> length (length_r r)" "length (vol_r r) = length (length_r r)"
  shows "fst (report_loop ph (enumerate k ys) (model, r)) = foldl (run_until ph) model ys \<and>
         length_r (snd (report_loop ph (enumerate k ys) (model, r))) =
           take k (length_r r) @
           map (\<lambda>j. length_m (fls (foldl (run_until ph) model (take (Suc j) ys)))) [0..<length ys] @
           drop (k + length ys) (length_r r) \<and>
         vol_r (snd (report_loop ph (enumerate k ys) (model, r))) =
           take k (vol_r r) @
           map (\<lambda>j. volume_km3 (fls (foldl (run_until ph) model (take (Suc j) ys)))) [0..<length ys] @
           drop (k + length ys) (vol_r r)"
  using assms
proof (induction ys arbitrary: k model r)
  case Nil
  then show ?case by simp
next
  case (Cons y ys)
  let ?m = "run_until ph model y"
  let ?r = "r\<lparr>year_r := (year_r r)[k := yr ?m],
              length_r := (length_r r)[k := length_m (fls ?m)],
              vol_r := (vol_r r)[k := volume_km3 (fls ?m)]\<rparr>"
  have ih: "fst (report_loop ph (enumerate (Suc k) ys) (?m, ?r)) = foldl (run_until ph) ?m ys \<and>
         length_r (snd (report_loop ph (enumerate (Suc k) ys) (?m, ?r))) =
           take (Suc k) (length_r ?r) @
           map (\<lambda>j. length_m (fls (foldl (run_until ph) ?m (take (Suc j) ys)))) [0..<length ys] @
           drop (Suc k + length ys) (length_r ?r) \<and>
         vol_r (snd (report_loop ph (enumerate (Suc k) ys) (?m, ?r))) =
           take (Suc k) (vol_r ?r) @
           map (\<lambda>j. volume_km3 (fls (foldl (run_until ph) ?m (take (Suc j) ys)))) [0..<length ys] @
           drop (Suc k + length ys) (vol_r ?r)"
    using Cons.prems by (intro Cons.IH) auto
  have t1: "take (Suc k) ((length_r r)[k := length_m (fls ?m)]) =
              take k (length_r r) @ [length_m (fls ?m)]"
    using Cons.prems by (simp add: take_Suc_conv_app_nth)
  have t2: "take (Suc k) ((vol_r r)[k := volume_km3 (fls ?m)]) =
              take k (vol_r r) @ [volume_km3 (fls ?m)]"
    using Cons.prems by (simp add: take_Suc_conv_app_nth)
  show ?case
    using ih t1 t2 by (simp add: Let_def map_upt_Suc del: upt_Suc)
qed

lemma foldl_run_until_yr:
  assumes "sorted ys" "\<forall>y\<in>set ys. yr model \<le> y" "ys \<noteq> []"
  shows "yr (foldl (run_until ph) model ys) = last ys"
  using assms
proof (induction ys arbitrary: model)
  case Nil
  then show ?case by simp
next
  case (Cons y ys)
  have y: "yr (run_until ph model y) = y" using Cons.prems by (simp add: yr_run_until)
  show ?case
  proof (cases "ys = []")
    case True
    with y show ?thesis by simp
  next
    case False
    with Cons.prems y have "yr (foldl (run_until ph) (run_until ph model y) ys) = last ys"
      by (intro Cons.IH) auto
    with False show ?thesis by simp
  qed
qed

lemma report_run_entries:
  assumes "sorted yrs" "\<forall>y\<in>set yrs. yr model \<le> y" "i < length yrs"
  shows "yr (foldl (run_until ph) model (take (Suc i) yrs)) = yrs ! i \<and>
         length_r (snd (report_run ph model yrs)) ! i =
           length_m (fls (foldl (run_until ph) model (take (Suc i) yrs))) \<and>
         vol_r (snd (report_run ph model yrs)) ! i =
           volume_km3 (fls (foldl (run_until ph) model (take (Suc i) yrs)))"
proof -
  have "sorted (take (Suc i) yrs)" using assms(1) by (rule sorted_wrt_take)
  moreover have "\<forall>y\<in>set (take (Suc i) yrs). yr model \<le> y"
    using assms(2) by (meson in_set_takeD)
  moreover have "take (Suc i) yrs \<noteq> []" using assms(3) by auto
  ultimately have "yr (foldl (run_until ph) model (take (Suc i) yrs)) = last (take (Suc i) yrs)"
    by (rule foldl_run_until_yr)
  moreover have "last (take (Suc i) yrs) = yrs ! i"
    using assms(3) by (simp add: take_Suc_conv_app_nth)
  moreover have "length_r (snd (report_run ph model yrs)) =
      map (\<lambda>j. length_m (fls (foldl (run_until ph) model (take (Suc j) yrs)))) [0..<length yrs]"
    and "vol_r (snd (report_run ph model yrs)) =
      map (\<lambda>j. volume_km3 (fls (foldl (run_until ph) model (take (Suc j) yrs)))) [0..<length yrs]"
    using report_loop_contents [of 0 yrs _ ph model] by (simp_all add: report_run_def Let_def)
  ultimately show ?thesis using assms(3) by simp
qed

lemma report_run_final: "fst (report_run ph model yrs) = foldl (run_until ph) model yrs"
  using report_loop_contents [of 0 yrs _ ph model] by (simp add: report_run_def Let_def)

subsection \<open>Claims about the surging schedule\<close>

text \<open>
  C1.  With \<open>t_slow = 100\<close>, \<open>period_s = 10\<close> and one surge, the schedule is the
  eleven background years 0, 10, ..., 100, then the ten consecutive surging years
  101, ..., 110, then the background years 120, 130, ..., 210 at step ten; only the ten
  surging years carry the perturbation flag.
\<close>

theorem surge_schedule_one_cycle:
  "surge_schedule 100 10 1 =
     [(0, False), (10, False), (20, False), (30, False), (40, False), (50, False),
      (60, False), (70, False), (80, False), (90, False), (100, False),
      (101, True), (102, True), (103, True), (104, True), (105, True),
      (106, True), (107, True), (108, True), (109, True), (110, True),
      (120, False), (130, False), (140, False), (150, False), (160, False),
      (170, False), (180, False), (190, False), (200, False), (210, False)] \<and>
   surge_yrs 100 10 1 =
     [0, 10, 20, 30, 40, 50, 60, 70, 80, 90, 100,
      101, 102, 103, 104, 105, 106, 107, 108, 109, 110,
      120, 130, 140, 150, 160, 170, 180, 190, 200, 210]"
  by (simp add: surge_schedule_def surge_yrs_def tagged_cycle_def surge_cycle_def
        arange_def upt_rec)

text \<open>
  C2.  For every number \<open>N \<ge> 0\<close> of surges (with \<open>t_slow = 100\<close> and
  \<open>period_s = 10\<close>), the schedule has exactly \<open>N\<close> maximal contiguous runs of years
  appended from \<open>yrs_sliding\<close>, and each run has length ten.
\<close>

theorem surge_schedule_runs:
  assumes "0 \<le> N"
  shows "perturbation_runs (surge_schedule 100 10 N) = replicate (nat N) 10 \<and>
         length (perturbation_runs (surge_schedule 100 10 N)) = nat N \<and>
         (\<forall>r \<in> set (perturbation_runs (surge_schedule 100 10 N)). r = 10)"
proof -
  from assms obtain n where "N = int n" by (metis nonneg_int_cases)
  then show ?thesis by (simp add: runs_of_schedule)
qed

theorem surge_schedule_runs_witness:
  "(0::int) \<le> 10 \<and>
   perturbation_runs (surge_schedule 100 10 10) = [10, 10, 10, 10, 10, 10, 10, 10, 10, 10]"
proof -
  have h: "(0::int) \<le> 10" by simp
  have r: "replicate (nat (10::int)) (10::nat) = [10, 10, 10, 10, 10, 10, 10, 10, 10, 10]"
    by code_simp
  from surge_schedule_runs [OF h] have
    "perturbation_runs (surge_schedule 100 10 10) = replicate (nat (10::int)) 10" ..
  with h r show ?thesis by (simp only: simp_thms)
qed

text \<open>
  C3.  For every number \<open>N \<ge> 0\<close> of surges, the years of the schedule are strictly
  increasing, hence without duplicates.  The reporting loop, started at year 0 and run
  over the schedule, fills one length and one volume per year, in the order of the
  schedule: entry \<open>i\<close> is the length and the volume of the model after it has been
  advanced through the first \<open>i + 1\<close> years of the schedule, one after the other, and
  the model then stands at year \<open>i\<close> of the schedule.  So the years at which the entries
  are read are the years of the schedule, strictly increasing.
\<close>

theorem surge_years_increasing_and_recorded:
  assumes "0 \<le> N"
  shows "sorted_wrt (<) (surge_yrs 100 10 N) \<and>
         distinct (surge_yrs 100 10 N) \<and>
         map fst (surge_schedule 100 10 N) = surge_yrs 100 10 N \<and>
         year_r (snd (report_run ph (FlowlineModel init_flowline ela 0) (surge_yrs 100 10 N))) =
           surge_yrs 100 10 N \<and>
         sorted_wrt (<) (year_r (snd (report_run ph (FlowlineModel init_flowline ela 0)
                                        (surge_yrs 100 10 N)))) \<and>
         length (length_r (snd (report_run ph (FlowlineModel init_flowline ela 0)
                                  (surge_yrs 100 10 N)))) = length (surge_yrs 100 10 N) \<and>
         length (vol_r (snd (report_run ph (FlowlineModel init_flowline ela 0)
                               (surge_yrs 100 10 N)))) = length (surge_yrs 100 10 N) \<and>
         fst (report_run ph (FlowlineModel init_flowline ela 0) (surge_yrs 100 10 N)) =
           foldl (run_until ph) (FlowlineModel init_flowline ela 0) (surge_yrs 100 10 N) \<and>
         (\<forall>i<length (surge_yrs 100 10 N).
            yr (foldl (run_until ph) (FlowlineModel init_flowline ela 0)
                  (take (Suc i) (surge_yrs 100 10 N))) = surge_yrs 100 10 N ! i \<and>
            length_r (snd (report_run ph (FlowlineModel init_flowline ela 0)
                             (surge_yrs 100 10 N))) ! i =
              length_m (fls (foldl (run_until ph) (FlowlineModel init_flowline ela 0)
                               (take (Suc i) (surge_yrs 100 10 N)))) \<and>
            vol_r (snd (report_run ph (FlowlineModel init_flowline ela 0)
                          (surge_yrs 100 10 N))) ! i =
              volume_km3 (fls (foldl (run_until ph) (FlowlineModel init_flowline ela 0)
                                 (take (Suc i) (surge_yrs 100 10 N)))))"
proof -
  let ?m = "FlowlineModel init_flowline ela 0"
  let ?yrs = "surge_yrs 100 10 N"
  from assms obtain n where N: "N = int n" by (metis nonneg_int_cases)
  have s: "sorted_wrt (<) ?yrs" unfolding N by (rule yrs_strict)
  then have sd: "sorted ?yrs \<and> distinct ?yrs"
    by (simp add: strict_sorted_iff)
  have lo: "\<forall>y\<in>set ?yrs. yr ?m \<le> y"
    unfolding N using yrs_bound [of _ n] by (simp add: FlowlineModel_def)
  with sd have yr: "year_r (snd (report_run ph ?m ?yrs)) = ?yrs"
    by (simp add: report_run_years)
  have ent: "\<forall>i<length ?yrs.
            yr (foldl (run_until ph) ?m (take (Suc i) ?yrs)) = ?yrs ! i \<and>
            length_r (snd (report_run ph ?m ?yrs)) ! i =
              length_m (fls (foldl (run_until ph) ?m (take (Suc i) ?yrs))) \<and>
            vol_r (snd (report_run ph ?m ?yrs)) ! i =
              volume_km3 (fls (foldl (run_until ph) ?m (take (Suc i) ?yrs)))"
    using report_run_entries [of ?yrs ?m _ ph] sd lo by blast
  have m: "map fst (surge_schedule 100 10 N) = ?yrs"
    unfolding N by (rule schedule_years)
  show ?thesis
    using s sd yr m ent report_run_lengths [of ph ?m ?yrs] report_run_final [of ph ?m ?yrs]
    by simp
qed

theorem surge_years_increasing_and_recorded_witness:
  "(0::int) \<le> 1 \<and>
   (11::nat) < length (surge_yrs 100 10 1) \<and>
   surge_yrs 100 10 1 ! 11 = 101 \<and>
   length_r (snd (report_run
       (\<lambda>ela y0 y1 f. f\<lparr>length_m := length_m f + of_int (y1 - y0),
                          volume_km3 := volume_km3 f + 1\<rparr>)
       (FlowlineModel \<lparr>length_m = 0, area_km2 = 0, volume_km3 = 0\<rparr> 3000 0)
       (surge_yrs 100 10 1))) ! 11 = 101 \<and>
   vol_r (snd (report_run
       (\<lambda>ela y0 y1 f. f\<lparr>length_m := length_m f + of_int (y1 - y0),
                          volume_km3 := volume_km3 f + 1\<rparr>)
       (FlowlineModel \<lparr>length_m = 0, area_km2 = 0, volume_km3 = 0\<rparr> 3000 0)
       (surge_yrs 100 10 1))) ! 11 = 11 \<and>
   sorted_wrt (<) (surge_yrs 100 10 1)"
proof -
  let ?ph = "\<lambda>(ela::int) (y0::int) (y1::int) f.
               f\<lparr>length_m := length_m f + of_int (y1 - y0), volume_km3 := volume_km3 f + 1\<rparr>"
  let ?m = "FlowlineModel \<lparr>length_m = 0, area_km2 = 0, volume_km3 = 0\<rparr> 3000 0"
  have y: "surge_yrs 100 10 1 =
     [0, 10, 20, 30, 40, 50, 60, 70, 80, 90, 100,
      101, 102, 103, 104, 105, 106, 107, 108, 109, 110,
      120, 130, 140, 150, 160, 170, 180, 190, 200, 210]"
    by (simp add: surge_yrs_def surge_cycle_def arange_def upt_rec)
  have h: "(0::int) \<le> 1" by simp
  have l: "(11::nat) < length (surge_yrs 100 10 1)" by (simp add: y)
  have f: "foldl (run_until ?ph) ?m (take (Suc 11) (surge_yrs 100 10 1)) =
             \<lparr>yr = 101, mb_model = 3000,
              fls = \<lparr>length_m = 101, area_km2 = 0, volume_km3 = 11\<rparr>\<rparr>"
    by (simp add: y run_until_def FlowlineModel_def)
  note t = surge_years_increasing_and_recorded [OF h, of ?ph
             "\<lparr>length_m = 0, area_km2 = 0, volume_km3 = 0\<rparr>" 3000]
  from t have s: "sorted_wrt (<) (surge_yrs 100 10 1)" by blast
  from t l have
    "length_r (snd (report_run ?ph ?m (surge_yrs 100 10 1))) ! 11 =
       length_m (fls (foldl (run_until ?ph) ?m (take (Suc 11) (surge_yrs 100 10 1))))"
    "vol_r (snd (report_run ?ph ?m (surge_yrs 100 10 1))) ! 11 =
       volume_km3 (fls (foldl (run_until ?ph) ?m (take (Suc 11) (surge_yrs 100 10 1))))"
    by blast+
  then have "length_r (snd (report_run ?ph ?m (surge_yrs 100 10 1))) ! 11 = 101"
    and "vol_r (snd (report_run ?ph ?m (surge_yrs 100 10 1))) ! 11 = 11"
    unfolding f by simp_all
  moreover have "surge_yrs 100 10 1 ! 11 = 101" by (simp add: y)
  ultimately show ?thesis using h l s by blast
qed

subsection \<open>Claims about the bedrock and the widths\<close>

lemma linspace_samples:
  assumes "2 \<le> num" "start \<noteq> stop"
  shows "linspace start stop num =
           Inr (map (\<lambda>k. of_nat k * ((stop - start) / of_int (num - 1)) + start) [0..<nat num])"
proof -
  let ?f = "\<lambda>k. of_nat k * ((stop - start) / of_int (num - 1)) + start"
  let ?n = "nat num"
  have n: "0 < ?n" "rat_of_nat (?n - 1) = of_int (num - 1)" "of_int (num - 1) \<noteq> (0::rat)"
    using assms(1) by (simp_all add: of_nat_diff)
  have "?f (?n - 1) = stop"
    using n by simp
  then have "(map ?f [0..<?n])[?n - 1 := stop] = map ?f [0..<?n]"
    using n(1) by (simp add: list_update_same_conv)
  moreover have "linspace start stop num = Inr ((map ?f [0..<?n])[?n - 1 := stop])"
    using assms by (simp add: linspace_def Let_def comp_def)
  ultimately show ?thesis by simp
qed

lemma linspace_single: "linspace start stop 1 = Inr [start]"
  by (simp add: linspace_def)

text \<open>
  C4, as the code has it.  For a top altitude above the bottom altitude and at least two
  grid points, the bedrock has exactly \<open>nx\<close> elevations, starts at the top altitude,
  ends at the bottom altitude, never increases, and is the linear interpolation between
  the two; so \<open>bed_h 3400 1400 200\<close> starts at 3400, ends at 1400 and has 200 entries.
\<close>

theorem bed_h_linear:
  assumes "bottom_alt < top_alt" "2 \<le> nx"
  shows "\<exists>ys. bed_h top_alt bottom_alt nx = Inr ys \<and>
              length ys = nat nx \<and>
              hd ys = top_alt \<and>
              last ys = bottom_alt \<and>
              sorted_wrt (\<ge>) ys \<and>
              (\<forall>k<nat nx. ys ! k =
                 top_alt + of_nat k * (bottom_alt - top_alt) / of_int (nx - 1))"
proof -
  let ?step = "(bottom_alt - top_alt) / of_int (nx - 1)"
  let ?f = "\<lambda>k. of_nat k * ?step + top_alt"
  let ?ys = "map ?f [0..<nat nx]"
  have n: "0 < nat nx" "rat_of_nat (nat nx - 1) = of_int (nx - 1)" "0 < (of_int (nx - 1) :: rat)"
    using assms(2) by (simp_all add: of_nat_diff)
  have step: "?step < 0"
    using assms(1) n(3) by (simp add: divide_neg_pos)
  have ys: "bed_h top_alt bottom_alt nx = Inr ?ys"
    unfolding bed_h_def using assms by (intro linspace_samples) auto
  have "hd ?ys = top_alt"
    using n(1) by (simp add: hd_map)
  moreover have "last ?ys = bottom_alt"
    using n by (simp add: last_map)
  moreover have "sorted_wrt (\<ge>) ?ys"
  proof -
    have "\<And>i j. i < j \<Longrightarrow> ?f j \<le> ?f i"
    proof -
      fix i j :: nat
      assume "i < j"
      then have "rat_of_nat i \<le> of_nat j" by simp
      then have "of_nat j * ?step \<le> of_nat i * ?step"
        using step by (intro mult_right_mono_neg) auto
      then show "?f j \<le> ?f i" by simp
    qed
    then have "sorted_wrt (\<lambda>i j. ?f j \<le> ?f i) [0..<nat nx]"
      using sorted_wrt_mono_rel [of "[0..<nat nx]" "(<)" "\<lambda>i j. ?f j \<le> ?f i"]
      by (simp add: sorted_wrt_upt)
    then show ?thesis by (simp add: sorted_wrt_map)
  qed
  moreover have "\<forall>k<nat nx. ?ys ! k = top_alt + of_nat k * (bottom_alt - top_alt) / of_int (nx - 1)"
    by simp
  ultimately show ?thesis
    using ys by (intro exI [of _ ?ys]) simp
qed

theorem bed_h_linear_witness:
  "(1400::rat) < 3400 \<and> (2::int) \<le> 200 \<and>
   (\<exists>ys. bed_h 3400 1400 200 = Inr ys \<and> length ys = 200 \<and> hd ys = 3400 \<and> last ys = 1400 \<and>
         sorted_wrt (\<ge>) ys)"
proof -
  have h1: "(1400::rat) < 3400" and h2: "(2::int) \<le> 200" by simp_all
  from bed_h_linear [OF h1 h2] obtain ys where
    "bed_h 3400 1400 200 = Inr ys" "length ys = nat 200" "hd ys = 3400" "last ys = 1400"
    "sorted_wrt (\<ge>) ys"
    by blast
  then show ?thesis using h1 h2 by auto
qed

text \<open>
  C4 as stated also covers a single grid point.  There the bedrock is the top altitude
  alone, and its last element is not the bottom altitude.
\<close>

theorem bed_h_single_point_counterexample:
  "(1400::rat) < 3400 \<and> (0::int) < 1 \<and>
   bed_h 3400 1400 1 = Inr [3400] \<and> last [3400::rat] \<noteq> 1400"
  by (simp add: bed_h_def linspace_def)

text \<open>
  The widths of the flowline notebook, 300 m with the first fifteen grid points widened
  to 600 m on a 100 m grid, are the step profile of \<open>build_trapezoidal_width\<close> for the
  fraction \<open>15 / 200\<close>.
\<close>

lemma wider_widths_step:
  "wider_widths 200 300 600 100 = replicate 15 6 @ replicate 185 3 \<and>
   build_trapezoidal_width 6 3 200 (15 / 200) = Inr (wider_widths 200 300 600 100)"
  by (simp add: wider_widths_def widths_def slice_fill_def build_trapezoidal_width_def
        map_replicate_const)

text \<open>
  C5.  For a positive grid count and a fraction in \<open>[0, 1]\<close>, the width profile has
  \<open>grid_count\<close> entries; the first \<open>floor(accumulation_fraction * grid_count)\<close>
  entries are \<open>top_width\<close> and all others are \<open>ela_width\<close>, with nothing in between.
\<close>

theorem build_trapezoidal_width_step:
  assumes "0 < grid_count" "0 \<le> accumulation_fraction" "accumulation_fraction \<le> 1"
  shows "\<exists>ws. build_trapezoidal_width top_width ela_width grid_count accumulation_fraction = Inr ws \<and>
              length ws = nat grid_count \<and>
              nat \<lfloor>accumulation_fraction * of_int grid_count\<rfloor> \<le> nat grid_count \<and>
              (\<forall>i < nat grid_count.
                 ws ! i = (if i < nat \<lfloor>accumulation_fraction * of_int grid_count\<rfloor>
                           then top_width else ela_width))"
proof -
  let ?k = "nat \<lfloor>accumulation_fraction * of_int grid_count\<rfloor>"
  let ?ws = "replicate ?k top_width @ replicate (nat grid_count - ?k) ela_width"
  have "accumulation_fraction * of_int grid_count \<le> 1 * of_int grid_count"
    using assms by (intro mult_right_mono) auto
  then have "\<lfloor>accumulation_fraction * of_int grid_count\<rfloor> \<le> grid_count"
    by (simp add: floor_le_iff)
  then have k: "?k \<le> nat grid_count" by linarith
  have "build_trapezoidal_width top_width ela_width grid_count accumulation_fraction = Inr ?ws"
    using assms by (simp add: build_trapezoidal_width_def Let_def)
  moreover have "length ?ws = nat grid_count" using k by simp
  moreover have "\<forall>i < nat grid_count. ?ws ! i = (if i < ?k then top_width else ela_width)"
    using k by (auto simp: nth_append)
  ultimately show ?thesis using k by blast
qed

theorem build_trapezoidal_width_step_witness:
  "(0::int) < 200 \<and> (0::rat) \<le> 1 / 3 \<and> (1 / 3 :: rat) \<le> 1 \<and>
   build_trapezoidal_width 1000 500 200 (1 / 3) = Inr (replicate 66 1000 @ replicate 134 500) \<and>
   (\<exists>ws. build_trapezoidal_width 1000 500 200 (1 / 3) = Inr ws \<and> length ws = 200)"
proof -
  have h: "(0::int) < 200" "(0::rat) \<le> 1 / 3" "(1 / 3 :: rat) \<le> 1" by simp_all
  have f: "\<lfloor>200 / 3 :: rat\<rfloor> = 66" by (rule floor_unique) simp_all
  have e: "build_trapezoidal_width 1000 500 200 (1 / 3) = Inr (replicate 66 1000 @ replicate 134 500)"
    by (simp add: build_trapezoidal_width_def Let_def f)
  from build_trapezoidal_width_step [OF h, of 1000 500] obtain ws where
    "build_trapezoidal_width 1000 500 200 (1 / 3) = Inr ws" "length ws = nat 200"
    by blast
  then show ?thesis using h e by auto
qed

subsection \<open>Claims about the flowline model\<close>

text \<open>
  C6.  Advancing twice to the same year gives the same model (year, length and volume) as
  advancing once; advancing to a year that is not later than the current year leaves the
  model as it is.  After year 150 a second request for year 150 stays at 150, and after
  year 500 a request for year 450 stays at 500.
\<close>

theorem run_until_idempotent:
  "run_until ph (run_until ph model y) y = run_until ph model y \<and>
   (y2 \<le> yr model \<longrightarrow> run_until ph model y2 = model) \<and>
   (y2 \<le> y \<longrightarrow> run_until ph (run_until ph model y) y2 = run_until ph model y) \<and>
   yr (run_until ph (run_until ph (FlowlineModel init_flowline ela 0) 150) 150) = 150 \<and>
   yr (run_until ph (run_until ph (FlowlineModel init_flowline ela 0) 500) 450) = 500"
  by (simp add: run_until_def FlowlineModel_def)

theorem run_until_idempotent_witness:
  "run_until (\<lambda>ela y0 y1 f. f\<lparr>length_m := length_m f + of_int (y1 - y0)\<rparr>)
     (run_until (\<lambda>ela y0 y1 f. f\<lparr>length_m := length_m f + of_int (y1 - y0)\<rparr>)
        (FlowlineModel \<lparr>length_m = 0, area_km2 = 0, volume_km3 = 0\<rparr> 3000 0) 500) 450 =
   \<lparr>yr = 500, mb_model = 3000, fls = \<lparr>length_m = 500, area_km2 = 0, volume_km3 = 0\<rparr>\<rparr> \<and>
   (450::int) \<le> 500"
proof -
  let ?ph = "\<lambda>(ela::int) (y0::int) (y1::int) f. f\<lparr>length_m := length_m f + of_int (y1 - y0)\<rparr>"
  let ?m = "FlowlineModel \<lparr>length_m = 0, area_km2 = 0, volume_km3 = 0\<rparr> 3000 0"
  have e: "run_until ?ph ?m 500 =
        \<lparr>yr = 500, mb_model = 3000, fls = \<lparr>length_m = 500, area_km2 = 0, volume_km3 = 0\<rparr>\<rparr>"
    by (simp add: run_until_def FlowlineModel_def)
  have "run_until ?ph (run_until ?ph ?m 500) 450 = run_until ?ph ?m 500"
    using run_until_idempotent [of ?ph ?m 500 450] by simp
  with e show ?thesis by simp
qed

subsection \<open>Claims about the surface without ice flow\<close>

text \<open>
  C7.  At every grid index of the reconstructed surface, the surface is at or above the
  bedrock: it is the maximum of
  \<open>initial_surface[i] + gradient * (initial_surface[i] - ela)\<close> and the bedrock
  elevation, so the implied ice thickness is never negative.
\<close>

theorem reconstruct_above_bedrock:
  assumes "i < length (reconstruct initial_surface bedrock ela gradient)"
  shows "length (reconstruct initial_surface bedrock ela gradient) =
           min (length bedrock) (length initial_surface) \<and>
         bedrock ! i \<le> reconstruct initial_surface bedrock ela gradient ! i \<and>
         reconstruct initial_surface bedrock ela gradient ! i =
           max (initial_surface ! i + gradient * (initial_surface ! i - ela)) (bedrock ! i)"
proof -
  have len: "length (reconstruct initial_surface bedrock ela gradient) =
           min (length bedrock) (length initial_surface)"
    by (simp add: reconstruct_def correct_to_bed_def)
  with assms have "i < length bedrock" "i < length initial_surface" by simp_all
  then have "reconstruct initial_surface bedrock ela gradient ! i =
      max (initial_surface ! i + gradient * (initial_surface ! i - ela)) (bedrock ! i)"
    by (simp add: reconstruct_def correct_to_bed_def max_def)
  with len show ?thesis by simp
qed

theorem reconstruct_above_bedrock_witness:
  "(2::nat) < length (reconstruct [3400, 3200, 2500] [3300, 3000, 2500] 3000 (1 / 100)) \<and>
   reconstruct [3400, 3200, 2500] [3300, 3000, 2500] 3000 (1 / 100) = [3404, 3202, 2500] \<and>
   [3300, 3000, 2500 :: rat] ! 2 \<le> reconstruct [3400, 3200, 2500] [3300, 3000, 2500] 3000 (1 / 100) ! 2"
proof -
  have e: "reconstruct [3400, 3200, 2500] [3300, 3000, 2500] 3000 (1 / 100) = [3404, 3202, 2500]"
    by (simp add: reconstruct_def correct_to_bed_def)
  then have h: "(2::nat) < length (reconstruct [3400, 3200, 2500] [3300, 3000, 2500] 3000 (1 / 100))"
    by simp
  have "[3300, 3000, 2500 :: rat] ! 2 \<le> reconstruct [3400, 3200, 2500] [3300, 3000, 2500] 3000 (1 / 100) ! 2"
    using reconstruct_above_bedrock [OF h] by blast
  with e h show ?thesis by blast
qed

subsection \<open>Claims about malformed parameters\<close>





subsection \<open>Claims about the marking of the surging periods\<close>

lemma surge_yrs_ten:
  "surge_yrs 100 10 10 =
     [0, 10, 20, 30, 40, 50, 60, 70, 80, 90, 100,
      101, 102, 103, 104, 105, 106, 107, 108, 109, 110,
      120, 130, 140, 150, 160, 170, 180, 190, 200, 210,
      211, 212, 213, 214, 215, 216, 217, 218, 219, 220,
      230, 240, 250, 260, 270, 280, 290, 300, 310, 320,
      321, 322, 323, 324, 325, 326, 327, 328, 329, 330,
      340, 350, 360, 370, 380, 390, 400, 410, 420, 430,
      431, 432, 433, 434, 435, 436, 437, 438, 439, 440,
      450, 460, 470, 480, 490, 500, 510, 520, 530, 540,
      541, 542, 543, 544, 545, 546, 547, 548, 549, 550,
      560, 570, 580, 590, 600, 610, 620, 630, 640, 650,
      651, 652, 653, 654, 655, 656, 657, 658, 659, 660,
      670, 680, 690, 700, 710, 720, 730, 740, 750, 760,
      761, 762, 763, 764, 765, 766, 767, 768, 769, 770,
      780, 790, 800, 810, 820, 830, 840, 850, 860, 870,
      871, 872, 873, 874, 875, 876, 877, 878, 879, 880,
      890, 900, 910, 920, 930, 940, 950, 960, 970, 980,
      981, 982, 983, 984, 985, 986, 987, 988, 989, 990,
      1000, 1010, 1020, 1030, 1040, 1050, 1060, 1070, 1080, 1090,
      1091, 1092, 1093, 1094, 1095, 1096, 1097, 1098, 1099, 1100,
      1110, 1120, 1130, 1140, 1150, 1160, 1170, 1180, 1190, 1200]"
  by code_simp

text \<open>
  C9.  On the schedule of the notebook (\<open>t_slow = 100\<close>, \<open>period_s = 10\<close>, ten
  surges; 211 years) the marking loop raises no \<open>IndexError\<close>: it returns its spans.
  The left operand of the condition is false at each of the last nine indices, the only
  ones at which the right operand would read past the end.  The condition holds at
  exactly ten indices, one per surge, and the year at each of them is the first year of
  that surge's \<open>yrs_sliding\<close>.
\<close>

theorem surge_marks_in_range:
  "length (surge_yrs 100 10 10) = 211 \<and>
   surge_marks (surge_yrs 100 10 10) 10 =
     Inr [(11, 100, 110), (31, 210, 220), (51, 320, 330), (71, 430, 440), (91, 540, 550),
          (111, 650, 660), (131, 760, 770), (151, 870, 880), (171, 980, 990),
          (191, 1090, 1100)] \<and>
   map (dense_step (surge_yrs 100 10 10)) [202..<211] = replicate 9 (Inr False) \<and>
   map (\<lambda>i. surge_yrs 100 10 10 ! i) [11, 31, 51, 71, 91, 111, 131, 151, 171, 191] =
     [101, 211, 321, 431, 541, 651, 761, 871, 981, 1091]"
  unfolding surge_yrs_ten by code_simp

subsection \<open>Claims about the staged equilibrium line altitude\<close>

lemma mb_run_until: "mb_model (run_until ph model y) = mb_model model"
  by (simp add: run_until_def)

lemma ela_step:
  assumes "y < 100 \<longrightarrow> cur = 3000" "mb_model model = cur"
  shows "ela_loop ph ((k, y) # es) (cur, model, r) =
           ela_loop ph es
             (staged_ela y, (run_until ph model y)\<lparr>mb_model := staged_ela y\<rparr>,
              r\<lparr>ela_r := (ela_r r)[k := staged_ela y],
                under_r := (under_r r)[k := cur],
                len_r := (len_r r)[k := length_m (fls (run_until ph model y))],
                area_r := (area_r r)[k := area_km2 (fls (run_until ph model y))],
                volume_r := (volume_r r)[k := volume_km3 (fls (run_until ph model y))]\<rparr>)"
proof -
  have "y < 100 \<Longrightarrow> (run_until ph model y)\<lparr>mb_model := 3000\<rparr> = run_until ph model y"
    using assms by (simp add: run_until_def)
  then show ?thesis
    using assms by (auto simp: staged_ela_def Let_def)
qed

lemma ela_loop_gen:
  assumes "sorted ys" "\<forall>y\<in>set ys. y < 100 \<longrightarrow> cur = 3000" "mb_model model = cur"
    "k + length ys \<le> length (ela_r r)" "length (under_r r) = length (ela_r r)"
  shows "ela_r (snd (snd (ela_loop ph (enumerate k ys) (cur, model, r)))) =
           take k (ela_r r) @ map staged_ela ys @ drop (k + length ys) (ela_r r) \<and>
         under_r (snd (snd (ela_loop ph (enumerate k ys) (cur, model, r)))) =
           take k (under_r r) @ butlast (cur # map staged_ela ys) @
           drop (k + length ys) (under_r r)"
  using assms
proof (induction ys arbitrary: k cur model r)
  case Nil
  then show ?case by simp
next
  case (Cons y ys)
  let ?m = "(run_until ph model y)\<lparr>mb_model := staged_ela y\<rparr>"
  let ?r = "r\<lparr>ela_r := (ela_r r)[k := staged_ela y],
                under_r := (under_r r)[k := cur],
                len_r := (len_r r)[k := length_m (fls (run_until ph model y))],
                area_r := (area_r r)[k := area_km2 (fls (run_until ph model y))],
                volume_r := (volume_r r)[k := volume_km3 (fls (run_until ph model y))]\<rparr>"
  have step: "ela_loop ph (enumerate k (y # ys)) (cur, model, r) =
              ela_loop ph (enumerate (Suc k) ys) (staged_ela y, ?m, ?r)"
    unfolding enumerate_simps by (rule ela_step) (use Cons.prems in auto)
  have later: "\<forall>y'\<in>set ys. y' < 100 \<longrightarrow> staged_ela y = 3000"
    using Cons.prems(1) by (auto simp: staged_ela_def)
  have ih: "ela_r (snd (snd (ela_loop ph (enumerate (Suc k) ys) (staged_ela y, ?m, ?r)))) =
           take (Suc k) (ela_r ?r) @ map staged_ela ys @ drop (Suc k + length ys) (ela_r ?r) \<and>
         under_r (snd (snd (ela_loop ph (enumerate (Suc k) ys) (staged_ela y, ?m, ?r)))) =
           take (Suc k) (under_r ?r) @ butlast (staged_ela y # map staged_ela ys) @
           drop (Suc k + length ys) (under_r ?r)"
    using Cons.prems later by (intro Cons.IH) auto
  have t1: "take (Suc k) (ela_r ?r) = take k (ela_r r) @ [staged_ela y]"
    using Cons.prems by (simp add: take_Suc_conv_app_nth)
  have t2: "take (Suc k) (under_r ?r) = take k (under_r r) @ [cur]"
    using Cons.prems by (simp add: take_Suc_conv_app_nth)
  show ?case
    unfolding step using ih t1 t2 by simp
qed

lemma ela_run_closed:
  assumes "sorted yrs"
  shows "ela_r (snd (snd (ela_run ph spinup yrs))) = map staged_ela yrs \<and>
         under_r (snd (snd (ela_run ph spinup yrs))) = butlast (3000 # map staged_ela yrs)"
  using ela_loop_gen [OF assms, of 3000 "FlowlineModel spinup 3000 0" 0 _ ph]
  by (simp add: ela_run_def Let_def FlowlineModel_def)

lemma stage_yrs_nth: "length stage_yrs = 181 \<and> (i < 181 \<longrightarrow> stage_yrs ! i = 5 * int i)"
  by (simp add: stage_yrs_def arange_def)

lemma stage_run:
  "ela_r (snd (snd (ela_run ph spinup stage_yrs))) = map staged_ela stage_yrs \<and>
   under_r (snd (snd (ela_run ph spinup stage_yrs))) = butlast (3000 # map staged_ela stage_yrs)"
  by (rule ela_run_closed) (simp add: stage_yrs_def arange_sorted)

lemma ela_loop_fls:
  assumes "sorted ys" "\<forall>y\<in>set ys. y < 100 \<longrightarrow> cur = 3000" "mb_model model = cur"
    "k + length ys \<le> length (len_r r)" "length (area_r r) = length (len_r r)"
    "length (volume_r r) = length (len_r r)"
  shows "len_r (snd (snd (ela_loop ph (enumerate k ys) (cur, model, r)))) =
           take k (len_r r) @
           map (\<lambda>j. length_m (fls (foldl (\<lambda>m y. (run_until ph m y)\<lparr>mb_model := staged_ela y\<rparr>)
                                       model (take (Suc j) ys)))) [0..<length ys] @
           drop (k + length ys) (len_r r) \<and>
         area_r (snd (snd (ela_loop ph (enumerate k ys) (cur, model, r)))) =
           take k (area_r r) @
           map (\<lambda>j. area_km2 (fls (foldl (\<lambda>m y. (run_until ph m y)\<lparr>mb_model := staged_ela y\<rparr>)
                                       model (take (Suc j) ys)))) [0..<length ys] @
           drop (k + length ys) (area_r r) \<and>
         volume_r (snd (snd (ela_loop ph (enumerate k ys) (cur, model, r)))) =
           take k (volume_r r) @
           map (\<lambda>j. volume_km3 (fls (foldl (\<lambda>m y. (run_until ph m y)\<lparr>mb_model := staged_ela y\<rparr>)
                                         model (take (Suc j) ys)))) [0..<length ys] @
           drop (k + length ys) (volume_r r)"
  using assms
proof (induction ys arbitrary: k cur model r)
  case Nil
  then show ?case by simp
next
  case (Cons y ys)
  let ?S = "\<lambda>m y. (run_until ph m y)\<lparr>mb_model := staged_ela y\<rparr>"
  let ?m = "?S model y"
  let ?r = "r\<lparr>ela_r := (ela_r r)[k := staged_ela y],
                under_r := (under_r r)[k := cur],
                len_r := (len_r r)[k := length_m (fls (run_until ph model y))],
                area_r := (area_r r)[k := area_km2 (fls (run_until ph model y))],
                volume_r := (volume_r r)[k := volume_km3 (fls (run_until ph model y))]\<rparr>"
  have step: "ela_loop ph (enumerate k (y # ys)) (cur, model, r) =
              ela_loop ph (enumerate (Suc k) ys) (staged_ela y, ?m, ?r)"
    unfolding enumerate_simps by (rule ela_step) (use Cons.prems in auto)
  have later: "\<forall>y'\<in>set ys. y' < 100 \<longrightarrow> staged_ela y = 3000"
    using Cons.prems(1) by (auto simp: staged_ela_def)
  have ih: "len_r (snd (snd (ela_loop ph (enumerate (Suc k) ys) (staged_ela y, ?m, ?r)))) =
           take (Suc k) (len_r ?r) @
           map (\<lambda>j. length_m (fls (foldl ?S ?m (take (Suc j) ys)))) [0..<length ys] @
           drop (Suc k + length ys) (len_r ?r) \<and>
         area_r (snd (snd (ela_loop ph (enumerate (Suc k) ys) (staged_ela y, ?m, ?r)))) =
           take (Suc k) (area_r ?r) @
           map (\<lambda>j. area_km2 (fls (foldl ?S ?m (take (Suc j) ys)))) [0..<length ys] @
           drop (Suc k + length ys) (area_r ?r) \<and>
         volume_r (snd (snd (ela_loop ph (enumerate (Suc k) ys) (staged_ela y, ?m, ?r)))) =
           take (Suc k) (volume_r ?r) @
           map (\<lambda>j. volume_km3 (fls (foldl ?S ?m (take (Suc j) ys)))) [0..<length ys] @
           drop (Suc k + length ys) (volume_r ?r)"
    using Cons.prems later by (intro Cons.IH) auto
  have t1: "take (Suc k) ((len_r r)[k := length_m (fls (run_until ph model y))]) =
              take k (len_r r) @ [length_m (fls (run_until ph model y))]"
    and t2: "take (Suc k) ((area_r r)[k := area_km2 (fls (run_until ph model y))]) =
              take k (area_r r) @ [area_km2 (fls (run_until ph model y))]"
    and t3: "take (Suc k) ((volume_r r)[k := volume_km3 (fls (run_until ph model y))]) =
              take k (volume_r r) @ [volume_km3 (fls (run_until ph model y))]"
    using Cons.prems by (simp_all add: take_Suc_conv_app_nth)
  show ?case
    unfolding step using ih t1 t2 t3 by (simp add: map_upt_Suc del: upt_Suc)
qed

lemma foldl_stage_yr:
  assumes "sorted ys" "\<forall>y\<in>set ys. yr model \<le> y" "ys \<noteq> []"
  shows "yr (foldl (\<lambda>m y. (run_until ph m y)\<lparr>mb_model := staged_ela y\<rparr>) model ys) = last ys \<and>
         mb_model (foldl (\<lambda>m y. (run_until ph m y)\<lparr>mb_model := staged_ela y\<rparr>) model ys) =
           staged_ela (last ys)"
  using assms
proof (induction ys arbitrary: model)
  case Nil
  then show ?case by simp
next
  case (Cons y ys)
  let ?S = "\<lambda>m y. (run_until ph m y)\<lparr>mb_model := staged_ela y\<rparr>"
  have y: "yr (?S model y) = y" using Cons.prems by (simp add: yr_run_until)
  show ?case
  proof (cases "ys = []")
    case True
    with y show ?thesis by simp
  next
    case False
    with Cons.prems y have "yr (foldl ?S (?S model y) ys) = last ys \<and>
        mb_model (foldl ?S (?S model y) ys) = staged_ela (last ys)"
      by (intro Cons.IH) auto
    with False show ?thesis by simp
  qed
qed

lemma stage_advance:
  assumes "sorted_wrt (<) ys" "\<forall>y\<in>set ys. yr model \<le> y" "Suc i < length ys"
  shows "fls (foldl (\<lambda>m y. (run_until ph m y)\<lparr>mb_model := staged_ela y\<rparr>) model
                (take (Suc (Suc i)) ys)) =
         ph (staged_ela (ys ! i)) (ys ! i) (ys ! Suc i)
            (fls (foldl (\<lambda>m y. (run_until ph m y)\<lparr>mb_model := staged_ela y\<rparr>) model
                    (take (Suc i) ys)))"
proof -
  let ?S = "\<lambda>m y. (run_until ph m y)\<lparr>mb_model := staged_ela y\<rparr>"
  let ?M = "foldl ?S model (take (Suc i) ys)"
  have srt: "sorted ys" using assms(1) by (simp add: strict_sorted_iff)
  have "sorted (take (Suc i) ys)" using srt by (rule sorted_wrt_take)
  moreover have "\<forall>y\<in>set (take (Suc i) ys). yr model \<le> y"
    using assms(2) by (meson in_set_takeD)
  moreover have "take (Suc i) ys \<noteq> []" using assms(3) by auto
  ultimately have "yr ?M = last (take (Suc i) ys) \<and> mb_model ?M = staged_ela (last (take (Suc i) ys))"
    by (rule foldl_stage_yr)
  moreover have "last (take (Suc i) ys) = ys ! i"
    using assms(3) by (simp add: take_Suc_conv_app_nth)
  ultimately have M: "yr ?M = ys ! i" "mb_model ?M = staged_ela (ys ! i)" by simp_all
  have lt: "ys ! i < ys ! Suc i"
    using assms(1,3) by (simp add: sorted_wrt_iff_nth_less)
  have "foldl ?S model (take (Suc (Suc i)) ys) = ?S ?M (ys ! Suc i)"
    using assms(3) by (simp add: take_Suc_conv_app_nth [of "Suc i"])
  then show ?thesis
    using M lt by (simp add: run_until_def)
qed

lemma stage_yrs_range: "sorted_wrt (<) stage_yrs \<and> (\<forall>y\<in>set stage_yrs. 0 \<le> y)"
  using arange_elem_lt [of 5 _ 0 901] by (auto simp: stage_yrs_def arange_strict)

lemma stage_recorded:
  assumes "i < 181"
  shows "recorded_flowline (snd (snd (ela_run ph spinup stage_yrs))) i =
           fls (foldl (\<lambda>m y. (run_until ph m y)\<lparr>mb_model := staged_ela y\<rparr>)
                  (FlowlineModel spinup 3000 0) (take (Suc i) stage_yrs))"
proof -
  let ?S = "\<lambda>m y. (run_until ph m y)\<lparr>mb_model := staged_ela y\<rparr>"
  let ?m = "FlowlineModel spinup 3000 0"
  let ?R = "snd (snd (ela_run ph spinup stage_yrs))"
  have len: "length stage_yrs = 181" using stage_yrs_nth [of 0] by simp
  have srt: "sorted stage_yrs" by (simp add: stage_yrs_def arange_sorted)
  have "len_r ?R = map (\<lambda>j. length_m (fls (foldl ?S ?m (take (Suc j) stage_yrs)))) [0..<181]"
    and "area_r ?R = map (\<lambda>j. area_km2 (fls (foldl ?S ?m (take (Suc j) stage_yrs)))) [0..<181]"
    and "volume_r ?R = map (\<lambda>j. volume_km3 (fls (foldl ?S ?m (take (Suc j) stage_yrs)))) [0..<181]"
    using ela_loop_fls [OF srt, of 3000 ?m 0 _ ph] len
    by (simp_all add: ela_run_def Let_def FlowlineModel_def)
  then show ?thesis
    using assms by (simp add: recorded_flowline_def)
qed

text \<open>
  C10.  Over the 181 years 0, 5, ..., 900 the recorded altitude is 2800 for a year in
  \<open>[100, 500)\<close>, 3200 for a year from 500 on and 3000 before year 100.  The model
  advances to each year under the mass-balance model it held before the call: the
  flowline read at year 0 is the initial one, and the flowline read at every later year
  is the ice dynamics applied to the flowline read at the year before, from that year to
  this one, under the altitude recorded for the year before.  So the advance from year
  95 to year 100 still runs under 3000 and the advance from year 495 to year 500 under
  2800; the altitudes 2800 and 3200 first act on the advances to the years 105 and 505.
\<close>

theorem staged_ela_recorded_one_late:
  "length stage_yrs = 181 \<and>
   (\<forall>i<181. ela_r (snd (snd (ela_run ph spinup stage_yrs))) ! i =
      (if 100 \<le> stage_yrs ! i \<and> stage_yrs ! i < 500 then 2800
       else if 500 \<le> stage_yrs ! i then 3200 else 3000)) \<and>
   under_r (snd (snd (ela_run ph spinup stage_yrs))) ! 0 = 3000 \<and>
   (\<forall>i<180. under_r (snd (snd (ela_run ph spinup stage_yrs))) ! Suc i =
              ela_r (snd (snd (ela_run ph spinup stage_yrs))) ! i) \<and>
   stage_yrs ! 19 = 95 \<and> stage_yrs ! 20 = 100 \<and>
   under_r (snd (snd (ela_run ph spinup stage_yrs))) ! 20 = 3000 \<and>
   ela_r (snd (snd (ela_run ph spinup stage_yrs))) ! 20 = 2800 \<and>
   under_r (snd (snd (ela_run ph spinup stage_yrs))) ! 21 = 2800 \<and>
   stage_yrs ! 99 = 495 \<and> stage_yrs ! 100 = 500 \<and>
   under_r (snd (snd (ela_run ph spinup stage_yrs))) ! 100 = 2800 \<and>
   ela_r (snd (snd (ela_run ph spinup stage_yrs))) ! 100 = 3200 \<and>
   under_r (snd (snd (ela_run ph spinup stage_yrs))) ! 101 = 3200 \<and>
   recorded_flowline (snd (snd (ela_run ph spinup stage_yrs))) 0 = spinup \<and>
   (\<forall>i<180. recorded_flowline (snd (snd (ela_run ph spinup stage_yrs))) (Suc i) =
      ph (ela_r (snd (snd (ela_run ph spinup stage_yrs))) ! i) (stage_yrs ! i) (stage_yrs ! Suc i)
         (recorded_flowline (snd (snd (ela_run ph spinup stage_yrs))) i)) \<and>
   recorded_flowline (snd (snd (ela_run ph spinup stage_yrs))) 20 =
     ph 3000 95 100 (recorded_flowline (snd (snd (ela_run ph spinup stage_yrs))) 19) \<and>
   recorded_flowline (snd (snd (ela_run ph spinup stage_yrs))) 21 =
     ph 2800 100 105 (recorded_flowline (snd (snd (ela_run ph spinup stage_yrs))) 20) \<and>
   recorded_flowline (snd (snd (ela_run ph spinup stage_yrs))) 100 =
     ph 2800 495 500 (recorded_flowline (snd (snd (ela_run ph spinup stage_yrs))) 99) \<and>
   recorded_flowline (snd (snd (ela_run ph spinup stage_yrs))) 101 =
     ph 3200 500 505 (recorded_flowline (snd (snd (ela_run ph spinup stage_yrs))) 100)"
proof -
  let ?R = "snd (snd (ela_run ph spinup stage_yrs))"
  let ?S = "\<lambda>m y. (run_until ph m y)\<lparr>mb_model := staged_ela y\<rparr>"
  let ?m = "FlowlineModel spinup 3000 0"
  have len: "length stage_yrs = 181" using stage_yrs_nth [of 0] by simp
  have nth: "\<And>i. i < 181 \<Longrightarrow> stage_yrs ! i = 5 * int i" using stage_yrs_nth by simp
  have e: "\<And>i. i < 181 \<Longrightarrow> ela_r ?R ! i = staged_ela (stage_yrs ! i)"
    using stage_run [of ph spinup] len by simp
  have u0: "under_r ?R ! 0 = 3000"
    using stage_run [of ph spinup] len by auto
  have u: "\<And>i. i < 180 \<Longrightarrow> under_r ?R ! Suc i = ela_r ?R ! i"
    using stage_run [of ph spinup] len by (auto simp: nth_butlast)
  have a: "\<forall>i<181. ela_r ?R ! i =
      (if 100 \<le> stage_yrs ! i \<and> stage_yrs ! i < 500 then 2800
       else if 500 \<le> stage_yrs ! i then 3200 else 3000)"
    using e by (simp add: staged_ela_def)
  have e20: "ela_r ?R ! 20 = 2800" and e19: "ela_r ?R ! 19 = 3000"
    and e99: "ela_r ?R ! 99 = 2800" and e100: "ela_r ?R ! 100 = 3200"
    using e [of 20] e [of 19] e [of 99] e [of 100] nth [of 20] nth [of 19] nth [of 99] nth [of 100]
    by (simp_all add: staged_ela_def)
  have u20: "under_r ?R ! 20 = 3000" and u21: "under_r ?R ! 21 = 2800"
    and u100: "under_r ?R ! 100 = 2800" and u101: "under_r ?R ! 101 = 3200"
    using u [of 19] u [of 20] u [of 99] u [of 100] e19 e20 e99 e100
    by (simp_all add: eval_nat_numeral)
  have "take (Suc 0) stage_yrs = [0]"
    using len nth [of 0] by (simp add: take_Suc_conv_app_nth)
  then have f0: "recorded_flowline ?R 0 = spinup"
    using stage_recorded [of 0 ph spinup] by (simp add: run_until_def FlowlineModel_def)
  have f: "\<And>i. i < 180 \<Longrightarrow> recorded_flowline ?R (Suc i) =
      ph (ela_r ?R ! i) (stage_yrs ! i) (stage_yrs ! Suc i) (recorded_flowline ?R i)"
  proof -
    fix i :: nat
    assume i: "i < 180"
    have "fls (foldl ?S ?m (take (Suc (Suc i)) stage_yrs)) =
          ph (staged_ela (stage_yrs ! i)) (stage_yrs ! i) (stage_yrs ! Suc i)
             (fls (foldl ?S ?m (take (Suc i) stage_yrs)))"
      using stage_yrs_range i len by (intro stage_advance) (auto simp: FlowlineModel_def)
    then show "recorded_flowline ?R (Suc i) =
      ph (ela_r ?R ! i) (stage_yrs ! i) (stage_yrs ! Suc i) (recorded_flowline ?R i)"
      using i e [of i] stage_recorded [of i ph spinup] stage_recorded [of "Suc i" ph spinup]
      by simp
  qed
  have f20: "recorded_flowline ?R 20 = ph 3000 95 100 (recorded_flowline ?R 19)"
    and f21: "recorded_flowline ?R 21 = ph 2800 100 105 (recorded_flowline ?R 20)"
    and f100: "recorded_flowline ?R 100 = ph 2800 495 500 (recorded_flowline ?R 99)"
    and f101: "recorded_flowline ?R 101 = ph 3200 500 505 (recorded_flowline ?R 100)"
    using f [of 19] f [of 20] f [of 99] f [of 100] e19 e20 e99 e100
      nth [of 19] nth [of 20] nth [of 21] nth [of 99] nth [of 100] nth [of 101]
    by (simp_all add: eval_nat_numeral)
  show ?thesis
    using len a u0 u nth [of 19] nth [of 20] nth [of 99] nth [of 100] e20 e100 u20 u21 u100 u101
      f0 f f20 f21 f100 f101
    by simp
qed

theorem staged_ela_recorded_one_late_witness:
  "ela_r (snd (snd (ela_run (\<lambda>ela y0 y1 f. f\<lparr>volume_km3 := of_int ela\<rparr>)
                      \<lparr>length_m = 0, area_km2 = 0, volume_km3 = 0\<rparr> stage_yrs))) ! 20 = 2800 \<and>
   volume_r (snd (snd (ela_run (\<lambda>ela y0 y1 f. f\<lparr>volume_km3 := of_int ela\<rparr>)
                      \<lparr>length_m = 0, area_km2 = 0, volume_km3 = 0\<rparr> stage_yrs))) ! 20 = 3000 \<and>
   volume_r (snd (snd (ela_run (\<lambda>ela y0 y1 f. f\<lparr>volume_km3 := of_int ela\<rparr>)
                      \<lparr>length_m = 0, area_km2 = 0, volume_km3 = 0\<rparr> stage_yrs))) ! 21 = 2800 \<and>
   stage_yrs ! 20 = 100"
proof -
  let ?ph = "\<lambda>(ela::int) (y0::int) (y1::int) f. f\<lparr>volume_km3 := of_int ela\<rparr>"
  let ?R = "snd (snd (ela_run ?ph \<lparr>length_m = 0, area_km2 = 0, volume_km3 = 0\<rparr> stage_yrs))"
  note t = staged_ela_recorded_one_late
    [of ?ph "\<lparr>length_m = 0, area_km2 = 0, volume_km3 = 0\<rparr>"]
  from t have "recorded_flowline ?R 20 = ?ph 3000 95 100 (recorded_flowline ?R 19)"
    and "recorded_flowline ?R 21 = ?ph 2800 100 105 (recorded_flowline ?R 20)"
    by blast+
  then have "volume_km3 (recorded_flowline ?R 20) = 3000"
    and "volume_km3 (recorded_flowline ?R 21) = 2800"
    by simp_all
  then have "volume_r ?R ! 20 = 3000" and "volume_r ?R ! 21 = 2800"
    by (simp_all add: recorded_flowline_def)
  moreover from t have "ela_r ?R ! 20 = 2800" and "stage_yrs ! 20 = 100" by blast+
  ultimately show ?thesis by blast
qed

end
